theory Spec2Isabelle
  imports Main "HOL-Library.Sublist" "HOL-Library.Char_ord" "HOL-Library.List_Lexorder"
begin

section \<open>Strings as the router uses them\<close>

text \<open>
  Route paths are JavaScript strings; only their sequence of code units matters to the
  router, so a path is a \<open>string\<close> (a list of characters; a \<open>char\<close> has eight bits, which
  covers the code units below 256). The helpers below are the string methods the two
  modules call: \<open>split("/")\<close>, \<open>startsWith\<close>, \<open>endsWith\<close>, \<open>includes\<close>, and \<open>replace\<close>
  with the regular expressions that occur in the source.
\<close>

text \<open>\<open>s.split(c)\<close>: the pieces between separators, empty pieces included.\<close>

fun splitStr :: "char \<Rightarrow> string \<Rightarrow> string list" where
  "splitStr c [] = [[]]"
| "splitStr c (x # xs) =
     (if x = c then [] # splitStr c xs
      else (case splitStr c xs of [] \<Rightarrow> [[x]] | w # ws \<Rightarrow> (x # w) # ws))"

text \<open>\<open>.filter(Boolean)\<close> on a list of strings drops the empty ones.\<close>

definition filterBoolean :: "string list \<Rightarrow> string list" where
  "filterBoolean xs = filter (\<lambda>s. s \<noteq> []) xs"

text \<open>\<open>(s.match(/c/g) || []).length\<close> for a one-character pattern.\<close>

definition countChar :: "char \<Rightarrow> string \<Rightarrow> nat" where
  "countChar c s = length (filter (\<lambda>x. x = c) s)"

fun startsWith :: "string \<Rightarrow> string \<Rightarrow> bool" where
  "startsWith s [] = True"
| "startsWith [] (p # ps) = False"
| "startsWith (x # xs) (p # ps) = (x = p \<and> startsWith xs ps)"

definition endsWith :: "string \<Rightarrow> string \<Rightarrow> bool" where
  "endsWith s e = startsWith (rev s) (rev e)"

text \<open>\<open>s.includes(t)\<close>: \<open>t\<close> occurs in \<open>s\<close> as a contiguous substring.\<close>

fun includesStr :: "string \<Rightarrow> string \<Rightarrow> bool" where
  "includesStr [] t = (t = [])"
| "includesStr (x # xs) t = (startsWith (x # xs) t \<or> includesStr xs t)"

text \<open>
  \<open>s.replace(/e$/, "")\<close> for a literal \<open>e\<close>: the only place the pattern can match is
  the end of the string, and the match is removed.
\<close>

definition removeSuffix :: "string \<Rightarrow> string \<Rightarrow> string" where
  "removeSuffix e s = (if endsWith s e then take (length s - length e) s else s)"

text \<open>\<open>.replace(/\\/g, "/")\<close>: every backslash becomes a slash.\<close>

definition backslashToSlash :: "string \<Rightarrow> string" where
  "backslashToSlash s = map (\<lambda>c. if c = CHR 0x5C then CHR ''/'' else c) s"

text \<open>
  \<open>.replace(/\.(ts|tsx|js|jsx)$/, "")\<close>. The four alternatives exclude each other as
  suffixes, so at most one of the branches applies.
\<close>

definition removeExtension :: "string \<Rightarrow> string" where
  "removeExtension s =
     (if endsWith s ''.ts'' then removeSuffix ''.ts'' s
      else if endsWith s ''.tsx'' then removeSuffix ''.tsx'' s
      else if endsWith s ''.js'' then removeSuffix ''.js'' s
      else if endsWith s ''.jsx'' then removeSuffix ''.jsx'' s
      else s)"

text \<open>
  The three global replacements of \<open>convertFilePathToRoute\<close> have one shape: a literal
  opener, then \<open>([^c]+)\<close> for a closing character \<open>c\<close>, then \<open>c\<close> itself. The greedy
  class takes the longest run without \<open>c\<close>; the match succeeds exactly when that run is
  not empty and a \<open>c\<close> follows it. \<open>matchDelim\<close> tries the pattern at the start of a string
  and returns the captured run and the text after the match.
\<close>

definition matchDelim :: "string \<Rightarrow> char \<Rightarrow> string \<Rightarrow> (string \<times> string) option" where
  "matchDelim opn cl s =
     (if startsWith s opn
      then (let t = drop (length opn) s;
                body = takeWhile (\<lambda>x. x \<noteq> cl) t;
                rest = dropWhile (\<lambda>x. x \<noteq> cl) t
            in if body \<noteq> [] \<and> rest \<noteq> [] then Some (body, tl rest) else None)
      else None)"

text \<open>
  A global replace scans left to right: where the pattern matches, the replacement is
  emitted and the scan resumes after the match; elsewhere one character is copied.
\<close>

function replaceAllDelim :: "string \<Rightarrow> char \<Rightarrow> (string \<Rightarrow> string) \<Rightarrow> string \<Rightarrow> string" where
  "replaceAllDelim opn cl f [] = []"
| "replaceAllDelim opn cl f (c # cs) =
     (case matchDelim opn cl (c # cs) of
        Some (body, rest) \<Rightarrow> f body @ replaceAllDelim opn cl f rest
      | None \<Rightarrow> c # replaceAllDelim opn cl f cs)"
  by pat_completeness auto
termination
proof (relation "measure (\<lambda>(opn, cl, f, s). length s)", goal_cases)
  case 1
  show ?case by simp
next
  case (2 opn cl f c cs)
  show ?case by simp
next
  case (3 opn cl f c cs x2 body rest)
  let ?t = "drop (length opn) (c # cs)"
  from 3 have r: "rest = tl (dropWhile (\<lambda>x. x \<noteq> cl) ?t)"
    and ne: "dropWhile (\<lambda>x. x \<noteq> cl) ?t \<noteq> []"
    by (auto simp: matchDelim_def Let_def split: if_splits)
  have "length (dropWhile (\<lambda>x. x \<noteq> cl) ?t) \<le> length ?t"
    by (rule length_dropWhile_le)
  moreover have "length ?t \<le> length (c # cs)" by simp
  moreover have "length rest < length (dropWhile (\<lambda>x. x \<noteq> cl) ?t)"
    using r ne by (simp add: less_Suc_eq_le Suc_pred)
  ultimately have "length rest < length (c # cs)" by linarith
  then show ?case by simp
qed

section \<open>Specificity scores\<close>

text \<open>\<open>calculateRoutePriority\<close> of route-utils.ts.\<close>

definition calculateRoutePriority :: "string \<Rightarrow> int" where
  "calculateRoutePriority route =
     (let priority = 1000;
          segments = filterBoolean (splitStr CHR ''/'' route);
          priority = priority + int (length segments) * 10;
          dynamicParams = countChar CHR '':'' route;
          priority = priority - int dynamicParams * 100;
          wildcards = countChar CHR ''*'' route;
          priority = priority - int wildcards * 200
      in priority)"

text \<open>\<open>BHRFileRouter.calculatePriority\<close> of file-router.ts.\<close>

definition calculatePriority :: "string \<Rightarrow> int" where
  "calculatePriority routePath =
     (let priority = 1000;
          dynamicSegments = length (filter (\<lambda>c. c = CHR '':'' \<or> c = CHR ''*'') routePath);
          priority = priority - int dynamicSegments * 100;
          segments = length (splitStr CHR ''/'' routePath);
          priority = priority + int segments * 10
      in priority)"

section \<open>Parsing a file path (route-utils.ts)\<close>

datatype SegmentType = Static | Dynamic | Wildcard | Group

record RouteSegment =
  type :: SegmentType
  val :: string
  param :: "string option"

record ParsedRoute =
  segments :: "RouteSegment list"
  params :: "string list"
  isDynamic :: bool
  isWildcard :: bool

text \<open>\<open>s.slice(1, -1)\<close>: the string without its first and last character.\<close>

definition slice1 :: "string \<Rightarrow> string" where
  "slice1 s = butlast (tl s)"

text \<open>One round of the \<open>for (const segment of pathSegments)\<close> loop of \<open>parseFilePath\<close>.\<close>

definition parseSegment :: "ParsedRoute \<Rightarrow> string \<Rightarrow> ParsedRoute" where
  "parseSegment r segment =
     (if startsWith segment ''('' \<and> endsWith segment '')''
      then r\<lparr>segments := segments r @ [\<lparr>type = Group, val = slice1 segment, param = None\<rparr>]\<rparr>
      else if startsWith segment ''['' \<and> endsWith segment '']''
      then (let paramContent = slice1 segment
            in if startsWith paramContent ''...''
               then (let p = drop 3 paramContent
                     in r\<lparr>segments := segments r @ [\<lparr>type = Wildcard, val = segment, param = Some p\<rparr>],
                          params := params r @ [p],
                          isWildcard := True,
                          isDynamic := True\<rparr>)
               else r\<lparr>segments := segments r @ [\<lparr>type = Dynamic, val = segment, param = Some paramContent\<rparr>],
                      params := params r @ [paramContent],
                      isDynamic := True\<rparr>)
      else r\<lparr>segments := segments r @ [\<lparr>type = Static, val = segment, param = None\<rparr>]\<rparr>)"

text \<open>
  \<open>cleanPath\<close>: the extension goes, then \<open>.replace(/\/(page|route|layout)$/, "")\<close>
  removes one of the three suffixes, the one the path ends with.
\<close>

definition cleanPath :: "string \<Rightarrow> string" where
  "cleanPath filePath =
     (let s = removeExtension (backslashToSlash filePath)
      in if endsWith s ''/page'' then removeSuffix ''/page'' s
         else if endsWith s ''/route'' then removeSuffix ''/route'' s
         else if endsWith s ''/layout'' then removeSuffix ''/layout'' s
         else s)"

definition parseFilePath :: "string \<Rightarrow> ParsedRoute" where
  "parseFilePath filePath =
     foldl parseSegment
       \<lparr>segments = [], params = [], isDynamic = False, isWildcard = False\<rparr>
       (filterBoolean (splitStr CHR ''/'' (cleanPath filePath)))"

text \<open>
  \<open>filePathToRoute\<close>: the groups are dropped, each remaining segment is rendered, and the
  pieces are joined with \<open>/\<close> behind a leading \<open>/\<close>. A template literal prints a missing
  \<open>param\<close> as \<open>undefined\<close>.
\<close>

definition renderSegment :: "RouteSegment \<Rightarrow> string" where
  "renderSegment s =
     (case type s of
        Dynamic \<Rightarrow> CHR '':'' # (case param s of Some p \<Rightarrow> p | None \<Rightarrow> ''undefined'')
      | Wildcard \<Rightarrow> CHR ''*'' # (case param s of Some p \<Rightarrow> p | None \<Rightarrow> ''undefined'')
      | _ \<Rightarrow> val s)"

fun join :: "string \<Rightarrow> string list \<Rightarrow> string" where
  "join sep [] = []"
| "join sep [x] = x"
| "join sep (x # y # ys) = x @ sep @ join sep (y # ys)"

definition renderRoute :: "RouteSegment list \<Rightarrow> string" where
  "renderRoute segs =
     (let routeSegments = map renderSegment (filter (\<lambda>s. type s \<noteq> Group) segs);
          route = CHR ''/'' # join ''/'' routeSegments
      in if route = ''/'' then ''/'' else removeSuffix ''/'' route)"

definition filePathToRoute :: "string \<Rightarrow> string" where
  "filePathToRoute filePath = renderRoute (segments (parseFilePath filePath))"

section \<open>File path to route in the file router (file-router.ts)\<close>

definition convertFilePathToRoute :: "string \<Rightarrow> string" where
  "convertFilePathToRoute relativePath =
     (let route =
            replaceAllDelim ''[...'' CHR '']'' (\<lambda>b. CHR ''*'' # b)
              (replaceAllDelim ''['' CHR '']'' (\<lambda>b. CHR '':'' # b)
                (removeSuffix ''/index'' (removeSuffix ''/route'' (removeSuffix ''/page''
                  (removeExtension (backslashToSlash relativePath))))));
          route = replaceAllDelim ''/('' CHR '')'' (\<lambda>b. []) route
      in if route = ''page'' \<or> route = ''/page'' then ''/''
         else (let route = (if startsWith route ''/'' then route else CHR ''/'' # route)
               in if route = ''/'' then ''/'' else removeSuffix ''/'' route))"

text \<open>
  The two replacements of \<open>RouteMatcher.addRoute\<close> and the scan of \<open>extractParams\<close>
  have one shape as well: a marker character followed by \<open>([^\/]+)\<close> or \<open>([^\/]*)\<close>. The
  greedy class takes the longest run without a slash. \<open>replaceMarker\<close> returns the
  rewritten string and the captured runs, in the order of the matches.
\<close>

function replaceMarker :: "char \<Rightarrow> bool \<Rightarrow> string \<Rightarrow> string \<Rightarrow> string \<times> string list" where
  "replaceMarker m emptyOk repl [] = ([], [])"
| "replaceMarker m emptyOk repl (c # cs) =
     (if c = m \<and> (emptyOk \<or> takeWhile (\<lambda>x. x \<noteq> CHR ''/'') cs \<noteq> [])
      then (case replaceMarker m emptyOk repl (dropWhile (\<lambda>x. x \<noteq> CHR ''/'') cs) of
              (out, caps) \<Rightarrow> (repl @ out, takeWhile (\<lambda>x. x \<noteq> CHR ''/'') cs # caps))
      else (case replaceMarker m emptyOk repl cs of (out, caps) \<Rightarrow> (c # out, caps)))"
  by pat_completeness auto
termination
  by (relation "measure (\<lambda>(m, emptyOk, repl, s). length s)")
     (auto simp: less_Suc_eq_le length_dropWhile_le)

text \<open>\<open>extractParams\<close>: the captures of \<open>/:([^\/]+)/g\<close> in the route path.\<close>

definition extractParams :: "string \<Rightarrow> string list" where
  "extractParams routePath = snd (replaceMarker CHR '':'' False [] routePath)"

definition isDynamicRoute :: "string \<Rightarrow> bool" where
  "isDynamicRoute routePath = (includesStr routePath '':'' \<or> includesStr routePath ''*'')"

section \<open>The tables of the file router\<close>

text \<open>
  A JavaScript \<open>Map\<close> iterates in insertion order, and \<open>set\<close> on a key that is present
  replaces the value where the key stands. It is an association list here.
\<close>

fun mapSet :: "'k \<Rightarrow> 'v \<Rightarrow> ('k \<times> 'v) list \<Rightarrow> ('k \<times> 'v) list" where
  "mapSet k v [] = [(k, v)]"
| "mapSet k v ((k', v') # m) = (if k' = k then (k, v) # m else (k', v') # mapSet k v m)"

definition mapGet :: "('k \<times> 'v) list \<Rightarrow> 'k \<Rightarrow> 'v option" where
  "mapGet m k = map_of m k"

text \<open>
  Handlers and middleware are opaque values of a type \<open>'h\<close>. A page route stores the
  handler that \<open>createPageHandler\<close> builds from the page component and the route path.
\<close>

datatype 'h Handler = Exported 'h | PageHandler 'h string

record 'h RouteInfo =
  path :: string
  filePath :: string
  httpMethod :: string
  handler :: "'h Handler"
  middleware :: "'h list"
  routeParams :: "string list"
  dynamic :: bool
  priority :: int

record 'h Router =
  routes :: "(string \<times> 'h RouteInfo) list"
  middlewareMap :: "(string \<times> 'h list) list"

definition newRouter :: "'h Router" where
  "newRouter = \<lparr>routes = [], middlewareMap = []\<rparr>"

text \<open>
  \<open>getMiddlewareForPath\<close>: the loop over the entries of the middleware map, pushing the
  list of every entry whose key the route path starts with.
\<close>

definition getMiddlewareForPath :: "(string \<times> 'h list) list \<Rightarrow> string \<Rightarrow> 'h list" where
  "getMiddlewareForPath mw routePath =
     foldl (\<lambda>acc (middlewarePath, middlewareList).
              if startsWith routePath middlewarePath then acc @ middlewareList else acc)
       [] mw"

text \<open>
  A loaded module is the partial map from its export names to the exported values;
  \<open>module.default\<close> is the export named \<open>default\<close>.
\<close>

type_synonym 'h Module = "string \<Rightarrow> 'h option"

definition methods :: "string list" where
  "methods = [''GET'', ''POST'', ''PUT'', ''DELETE'', ''PATCH'']"

definition registerMethod :: "string \<Rightarrow> string \<Rightarrow> 'h Module \<Rightarrow> 'h Router \<Rightarrow> string \<Rightarrow> 'h Router" where
  "registerMethod fp routePath module st m =
     (case module m of
        None \<Rightarrow> st
      | Some h \<Rightarrow>
          st\<lparr>routes := mapSet (m @ '':'' @ routePath)
                 \<lparr>path = routePath, filePath = fp, httpMethod = m, handler = Exported h,
                  middleware = getMiddlewareForPath (middlewareMap st) routePath,
                  routeParams = extractParams routePath,
                  dynamic = isDynamicRoute routePath,
                  priority = calculatePriority routePath\<rparr>
                 (routes st)\<rparr>)"

definition processApiRoute :: "'h Router \<Rightarrow> string \<Rightarrow> string \<Rightarrow> 'h Module \<Rightarrow> 'h Router" where
  "processApiRoute st fp relativePath module =
     foldl (registerMethod fp (convertFilePathToRoute relativePath) module) st methods"

definition processPageRoute :: "'h Router \<Rightarrow> string \<Rightarrow> string \<Rightarrow> 'h Module \<Rightarrow> 'h Router" where
  "processPageRoute st fp relativePath module =
     (let routePath = convertFilePathToRoute relativePath
      in case module ''default'' of
           None \<Rightarrow> st
         | Some pageComponent \<Rightarrow>
             st\<lparr>routes := mapSet (''GET:'' @ routePath)
                    \<lparr>path = routePath, filePath = fp, httpMethod = ''GET'',
                     handler = PageHandler pageComponent routePath,
                     middleware = getMiddlewareForPath (middlewareMap st) routePath,
                     routeParams = extractParams routePath,
                     dynamic = isDynamicRoute routePath,
                     priority = calculatePriority routePath\<rparr>
                    (routes st)\<rparr>)"

definition processMiddleware :: "'h Router \<Rightarrow> string \<Rightarrow> string \<Rightarrow> 'h Module \<Rightarrow> 'h Router" where
  "processMiddleware st fp relativePath module =
     (let middlewarePath = convertFilePathToRoute relativePath
      in case module ''default'' of
           None \<Rightarrow> st
         | Some mw \<Rightarrow>
             (let existingMiddleware =
                    (case mapGet (middlewareMap st) middlewarePath of
                       Some l \<Rightarrow> l | None \<Rightarrow> [])
              in st\<lparr>middlewareMap :=
                      mapSet middlewarePath (existingMiddleware @ [mw]) (middlewareMap st)\<rparr>))"

text \<open>
  The path helpers of the router. \<open>s.substring(s.lastIndexOf(c) + 1)\<close> is the text
  after the last \<open>c\<close>, the whole string when there is none. \<open>s.substring(s.lastIndexOf(c))\<close>
  starts at the last \<open>c\<close>; without a \<open>c\<close> the index is -1 and the result is the whole
  string. \<open>s.substring(0, s.lastIndexOf(c))\<close> is the text before the last \<open>c\<close>, and
  empty without a \<open>c\<close>. The separator \<open>sep\<close> of the path module is the slash (\<open>pathSep\<close>).
\<close>

definition afterLast :: "char \<Rightarrow> string \<Rightarrow> string" where
  "afterLast c s = rev (takeWhile (\<lambda>x. x \<noteq> c) (rev s))"

definition fromLast :: "char \<Rightarrow> string \<Rightarrow> string" where
  "fromLast c s = (if c \<in> set s then c # afterLast c s else s)"

definition beforeLast :: "char \<Rightarrow> string \<Rightarrow> string" where
  "beforeLast c s = (if c \<in> set s then rev (tl (dropWhile (\<lambda>x. x \<noteq> c) (rev s))) else [])"

definition pathSep :: char where
  "pathSep = CHR ''/''"

definition getFileExtension :: "string \<Rightarrow> string" where
  "getFileExtension fp = fromLast CHR ''.'' fp"

definition getFileName :: "string \<Rightarrow> string" where
  "getFileName fp = beforeLast CHR ''.'' (afterLast pathSep fp)"

text \<open>The extensions of \<open>DEFAULT_OPTIONS\<close>.\<close>

definition extensions :: "string list" where
  "extensions = [''.ts'', ''.tsx'', ''.js'', ''.jsx'']"

text \<open>
  A discovered file is its full path, its path relative to the scanned directory (the
  path module computes it) and its module. \<open>processFile\<close> skips a file whose extension
  is not among the options' and dispatches on the file name without its extension.
  Layouts go to a table of their own that no route depends on; it is left out.
\<close>

record 'h File =
  fullPath :: string
  relPath :: string
  loaded :: "'h Module"

definition processFile :: "'h Router \<Rightarrow> 'h File \<Rightarrow> 'h Router" where
  "processFile st f =
     (if getFileExtension (fullPath f) \<notin> set extensions then st
      else (let fileName = getFileName (fullPath f)
            in if fileName = ''route''
               then processApiRoute st (fullPath f) (relPath f) (loaded f)
               else if fileName = ''page''
               then processPageRoute st (fullPath f) (relPath f) (loaded f)
               else if fileName = ''layout'' then st
               else if fileName = ''_middleware'' \<or> fileName = ''middleware''
               then processMiddleware st (fullPath f) (relPath f) (loaded f)
               else st))"

text \<open>
  \<open>scan\<close> processes the discovered files in the order of discovery and then sorts the
  values of the route map with the comparator \<open>(a, b) => b.priority - a.priority\<close>.
  \<open>Array.prototype.sort\<close> is stable, and so is \<open>sort_key\<close>.
\<close>

definition scanFiles :: "'h File list \<Rightarrow> 'h Router" where
  "scanFiles fs = foldl processFile newRouter fs"

definition sortedRoutes :: "'h Router \<Rightarrow> 'h RouteInfo list" where
  "sortedRoutes st = sort_key (\<lambda>r. - priority r) (map snd (routes st))"

section \<open>RouteMatcher (route-utils.ts)\<close>

text \<open>
  \<open>addRoute\<close> turns a route path into the source of a regular expression and hands it
  to \<open>new RegExp\<close>. The sources it builds from route paths are sequences of three
  kinds of item: a literal character (a slash arrives escaped as \<open>\/\<close>), the group
  \<open>([^/]+)\<close> and the group \<open>(.*)\<close>. \<open>compileRegExp\<close> reads such a source; a source
  with any other regular-expression syntax in it is outside this fragment and
  gives \<open>None\<close>.
\<close>

datatype Rx = RChar char | RSeg | RAll

function compileRegExp :: "string \<Rightarrow> Rx list option" where
  "compileRegExp [] = Some []"
| "compileRegExp (c # cs) =
     (if startsWith (c # cs) ''([^/]+)'' then map_option (Cons RSeg) (compileRegExp (drop 6 cs))
      else if startsWith (c # cs) ''(.*)'' then map_option (Cons RAll) (compileRegExp (drop 3 cs))
      else if c = CHR 0x5C
      then (case cs of
              [] \<Rightarrow> None
            | d # ds \<Rightarrow> if d = CHR ''/'' then map_option (Cons (RChar d)) (compileRegExp ds) else None)
      else if c \<in> set ''^$.*+?()[]{}|'' then None
      else map_option (Cons (RChar c)) (compileRegExp cs))"
  by pat_completeness auto
termination
  by (relation "measure length") auto

text \<open>
  The ways to cut a string into a prefix of characters of a class and the rest, the
  longest prefix first: the order in which a greedy quantifier tries them.
\<close>

fun splits :: "(char \<Rightarrow> bool) \<Rightarrow> string \<Rightarrow> (string \<times> string) list" where
  "splits P [] = [([], [])]"
| "splits P (x # xs) =
     (if P x then map (\<lambda>(a, b). (x # a, b)) (splits P xs) @ [([], x # xs)]
      else [([], x # xs)])"

text \<open>
  All matches of the anchored expression \<open>^...$\<close> against a string, each as the list of
  its captures, in the order backtracking finds them. \<open>[^/]\<close> is any character but the
  slash; \<open>.\<close> is any character but a line terminator.
\<close>

fun rxMatches :: "Rx list \<Rightarrow> string \<Rightarrow> string list list" where
  "rxMatches [] s = (if s = [] then [[]] else [])"
| "rxMatches (RChar c # r) s =
     (case s of [] \<Rightarrow> [] | x # xs \<Rightarrow> if x = c then rxMatches r xs else [])"
| "rxMatches (RSeg # r) s =
     concat (map (\<lambda>(a, b). map (Cons a) (rxMatches r b))
       (filter (\<lambda>(a, b). a \<noteq> []) (splits (\<lambda>x. x \<noteq> CHR ''/'') s)))"
| "rxMatches (RAll # r) s =
     concat (map (\<lambda>(a, b). map (Cons a) (rxMatches r b))
       (splits (\<lambda>x. x \<noteq> CHR 0x0A \<and> x \<noteq> CHR 0x0D) s))"

text \<open>\<open>path.match(pattern)\<close>: the captures of the first match, or \<open>null\<close>.\<close>

definition execRegExp :: "Rx list \<Rightarrow> string \<Rightarrow> string list option" where
  "execRegExp rx s = (case rxMatches rx s of [] \<Rightarrow> None | m # ms \<Rightarrow> Some m)"

type_synonym RouteMatcher = "(string \<times> Rx list \<times> string list) list"

definition escapeSlashes :: "string \<Rightarrow> string" where
  "escapeSlashes p = concat (map (\<lambda>c. if c = CHR ''/'' then [CHR 0x5C, CHR ''/''] else [c]) p)"

text \<open>
  \<open>addRoute\<close>: the parameters of the \<open>:name\<close> replacement are pushed first, then the
  non-empty ones of the \<open>*name\<close> replacement. \<open>None\<close> when the source is outside the
  fragment of \<open>compileRegExp\<close>.
\<close>

definition addRoute :: "RouteMatcher \<Rightarrow> string \<Rightarrow> RouteMatcher option" where
  "addRoute rm p =
     (case replaceMarker CHR '':'' False ''([^/]+)'' (escapeSlashes p) of
        (p1, dyn) \<Rightarrow>
          (case replaceMarker CHR ''*'' True ''(.*)'' p1 of
             (p2, wild) \<Rightarrow>
               (case compileRegExp p2 of
                  None \<Rightarrow> None
                | Some rx \<Rightarrow> Some (mapSet p (rx, dyn @ filterBoolean wild) rm))))"

datatype ParamValue = Str string | Strs "string list" | Undefined

datatype MatchResult = Null | Found string "(string \<times> ParamValue) list" | TypeError

text \<open>
  The loop over \<open>params\<close> in \<open>match\<close>: parameter \<open>i\<close> takes capture \<open>i + 1\<close>. A capture
  that does not exist is \<open>undefined\<close>; calling \<open>split\<close> on it throws.
\<close>

fun bindParams :: "string \<Rightarrow> string list \<Rightarrow> string list \<Rightarrow> (string \<times> ParamValue) list
    \<Rightarrow> (string \<times> ParamValue) list option" where
  "bindParams routePath [] caps acc = Some acc"
| "bindParams routePath (p # ps) caps acc =
     (if includesStr routePath (CHR ''*'' # p)
      then (case caps of
              [] \<Rightarrow> None
            | v # vs \<Rightarrow>
                bindParams routePath ps vs
                  (mapSet p (Strs (filterBoolean (splitStr CHR ''/'' v))) acc))
      else (case caps of
              [] \<Rightarrow> bindParams routePath ps [] (mapSet p Undefined acc)
            | v # vs \<Rightarrow> bindParams routePath ps vs (mapSet p (Str v) acc)))"

fun matchRoute :: "RouteMatcher \<Rightarrow> string \<Rightarrow> MatchResult" where
  "matchRoute [] p = Null"
| "matchRoute ((routePath, rx, ps) # rest) p =
     (case execRegExp rx p of
        None \<Rightarrow> matchRoute rest p
      | Some caps \<Rightarrow>
          (case bindParams routePath ps caps [] of
             None \<Rightarrow> TypeError
           | Some b \<Rightarrow> Found routePath b))"

section \<open>The specification's side\<close>

text \<open>
  The specification scores a pattern by its classified segments: 1000, plus 10 for
  every segment of the pattern (groups are not part of it), minus 100 for every dynamic
  segment, minus 200 for every catch-all segment.
\<close>

definition formulaPriority :: "RouteSegment list \<Rightarrow> int" where
  "formulaPriority segs =
     1000 + 10 * int (length (filter (\<lambda>s. type s \<noteq> Group) segs))
          - 100 * int (length (filter (\<lambda>s. type s = Dynamic) segs))
          - 200 * int (length (filter (\<lambda>s. type s = Wildcard) segs))"

text \<open>
  A segment is well formed when its text is free of the three characters that carry
  meaning in a pattern, and a static segment is not empty.
\<close>

definition plain :: "string \<Rightarrow> bool" where
  "plain t = (CHR ''/'' \<notin> set t \<and> CHR '':'' \<notin> set t \<and> CHR ''*'' \<notin> set t)"

definition wellFormedSegment :: "RouteSegment \<Rightarrow> bool" where
  "wellFormedSegment s =
     (case type s of
        Static \<Rightarrow> val s \<noteq> [] \<and> plain (val s)
      | Dynamic \<Rightarrow> (case param s of Some p \<Rightarrow> plain p | None \<Rightarrow> False)
      | Wildcard \<Rightarrow> (case param s of Some p \<Rightarrow> plain p | None \<Rightarrow> False)
      | Group \<Rightarrow> True)"

text \<open>
  The specification's middleware rule: the lists of the bindings whose prefix is a
  prefix of the pattern, concatenated in the order of the bindings.
\<close>

definition applicableMiddleware :: "(string \<times> 'h list) list \<Rightarrow> string \<Rightarrow> 'h list" where
  "applicableMiddleware bindings pattern =
     concat (map snd (filter (\<lambda>b. prefix (fst b) pattern) bindings))"

section \<open>Invariant and sample inputs\<close>

text \<open>
  What every route map that the router builds satisfies: the keys are distinct, and
  each key is the method and the path of its entry, joined by a colon.
\<close>

definition routesInv :: "(string \<times> 'h RouteInfo) list \<Rightarrow> bool" where
  "routesInv rs = (distinct (map fst rs) \<and>
     (\<forall>kr \<in> set rs. fst kr = httpMethod (snd kr) @ '':'' @ path (snd kr)
        \<and> httpMethod (snd kr) \<in> set methods))"

text \<open>A discovered page file with a default export, for concrete runs of the scan.\<close>

definition pageFile :: "string \<Rightarrow> 'h \<Rightarrow> 'h File" where
  "pageFile rel c =
     \<lparr>fullPath = ''app/(pages)/'' @ rel, relPath = rel, loaded = map_of [(''default'', c)]\<rparr>"

section \<open>Facts about the string helpers\<close>

lemma startsWith_prefix: "startsWith s p = prefix p s"
  by (induction s p rule: startsWith.induct) auto

section \<open>Scores\<close>

lemma splitStr_no_sep: "c \<notin> set x \<Longrightarrow> splitStr c x = [x]"
  by (induction x) auto

lemma splitStr_append: "c \<notin> set x \<Longrightarrow> splitStr c (x @ c # r) = x # splitStr c r"
  by (induction x) auto

lemma splitStr_join:
  "ps \<noteq> [] \<Longrightarrow> \<forall>p \<in> set ps. c \<notin> set p \<Longrightarrow> splitStr c (join [c] ps) = ps"
  by (induction "[c]" ps rule: join.induct) (auto simp: splitStr_no_sep splitStr_append)

lemma countChar_append: "countChar c (a @ b) = countChar c a + countChar c b"
  by (simp add: countChar_def)

lemma countChar_join:
  "countChar c sep = 0 \<Longrightarrow> countChar c (join sep ps) = sum_list (map (countChar c) ps)"
  by (induction sep ps rule: join.induct) (auto simp: countChar_append countChar_def)

lemma join_last:
  "ps \<noteq> [] \<Longrightarrow> \<forall>p \<in> set ps. p \<noteq> [] \<and> c \<notin> set p \<Longrightarrow>
   join [d] ps \<noteq> [] \<and> last (join [d] ps) \<noteq> c"
  by (induction "[d]" ps rule: join.induct) auto

lemma endsWith_last: "endsWith s [c] = (s \<noteq> [] \<and> last s = c)"
  by (cases s rule: rev_cases) (auto simp: endsWith_def)

lemma countChar_plain:
  "plain t \<Longrightarrow> countChar CHR '':'' t = 0 \<and> countChar CHR ''*'' t = 0"
  by (induction t) (auto simp: plain_def countChar_def)

lemma render_facts:
  assumes "wellFormedSegment s" "type s \<noteq> Group"
  shows "renderSegment s \<noteq> []" "CHR ''/'' \<notin> set (renderSegment s)"
    "countChar CHR '':'' (renderSegment s) = (if type s = Dynamic then 1 else 0)"
    "countChar CHR ''*'' (renderSegment s) = (if type s = Wildcard then 1 else 0)"
  using assms countChar_plain[of "val s"] countChar_plain[of "the (param s)"]
  by (auto simp: wellFormedSegment_def renderSegment_def plain_def countChar_def
      split: SegmentType.splits option.splits)

lemma sum_count:
  "(\<And>s. s \<in> set xs \<Longrightarrow> f s = (if P s then 1 else (0::nat))) \<Longrightarrow>
   sum_list (map f xs) = length (filter P xs)"
  by (induction xs) auto

text \<open>
  On well-formed segments \<open>filePathToRoute\<close> renders the pattern as the specification
  says: the segments that are not groups, each behind a slash, and the root for none.
\<close>

lemma renderRoute_join:
  assumes "\<forall>s \<in> set segs. wellFormedSegment s"
  shows "renderRoute segs =
    CHR ''/'' # join ''/'' (map renderSegment (filter (\<lambda>s. type s \<noteq> Group) segs))"
proof -
  let ?ps = "map renderSegment (filter (\<lambda>s. type s \<noteq> Group) segs)"
  have ne: "\<forall>p \<in> set ?ps. p \<noteq> [] \<and> CHR ''/'' \<notin> set p"
    using assms render_facts(1,2) by auto
  show ?thesis
  proof (cases "?ps = []")
    case True
    then show ?thesis by (simp add: renderRoute_def Let_def)
  next
    case False
    from join_last[OF False ne, of "CHR ''/''"]
    have "\<not> endsWith (CHR ''/'' # join ''/'' ?ps) ''/''"
      by (simp add: endsWith_last)
    then show ?thesis by (simp add: renderRoute_def Let_def removeSuffix_def)
  qed
qed

text \<open>
  \<open>calculateRoutePriority\<close> of route-utils.ts computes the specification's formula on
  every pattern rendered from well-formed segments.
\<close>

lemma calculateRoutePriority_formula:
  assumes "\<forall>s \<in> set segs. wellFormedSegment s"
  shows "calculateRoutePriority (renderRoute segs) = formulaPriority segs"
proof -
  let ?ng = "filter (\<lambda>s. type s \<noteq> Group) segs"
  let ?ps = "map renderSegment ?ng"
  have wf: "\<And>s. s \<in> set ?ng \<Longrightarrow> wellFormedSegment s \<and> type s \<noteq> Group"
    using assms by auto
  have ne: "\<forall>p \<in> set ?ps. p \<noteq> [] \<and> CHR ''/'' \<notin> set p"
    using assms render_facts(1,2) by auto
  have r: "renderRoute segs = CHR ''/'' # join ''/'' ?ps"
    by (rule renderRoute_join[OF assms])
  have segs: "filterBoolean (splitStr CHR ''/'' (CHR ''/'' # join ''/'' ?ps)) = ?ps"
  proof (cases "?ps = []")
    case True
    then show ?thesis by (simp add: filterBoolean_def)
  next
    case False
    have "splitStr CHR ''/'' (join ''/'' ?ps) = ?ps"
      using splitStr_join[OF False, of "CHR ''/''"] ne by blast
    then show ?thesis using ne by (simp add: filterBoolean_def filter_id_conv)
  qed
  have dyn: "countChar CHR '':'' (CHR ''/'' # join ''/'' ?ps) =
      length (filter (\<lambda>s. type s = Dynamic) segs)"
  proof -
    have "countChar CHR '':'' (join ''/'' ?ps) = sum_list (map (countChar CHR '':'') ?ps)"
      by (rule countChar_join) (simp add: countChar_def)
    also have "\<dots> = sum_list (map (\<lambda>s. countChar CHR '':'' (renderSegment s)) ?ng)"
      by (simp add: comp_def)
    also have "\<dots> = length (filter (\<lambda>s. type s = Dynamic) ?ng)"
      by (rule sum_count) (use wf render_facts(3) in blast)
    also have "\<dots> = length (filter (\<lambda>s. type s = Dynamic) segs)"
      by (simp add: conj_commute cong: conj_cong)
    finally show ?thesis by (simp add: countChar_def)
  qed
  have wild: "countChar CHR ''*'' (CHR ''/'' # join ''/'' ?ps) =
      length (filter (\<lambda>s. type s = Wildcard) segs)"
  proof -
    have "countChar CHR ''*'' (join ''/'' ?ps) = sum_list (map (countChar CHR ''*'') ?ps)"
      by (rule countChar_join) (simp add: countChar_def)
    also have "\<dots> = sum_list (map (\<lambda>s. countChar CHR ''*'' (renderSegment s)) ?ng)"
      by (simp add: comp_def)
    also have "\<dots> = length (filter (\<lambda>s. type s = Wildcard) ?ng)"
      by (rule sum_count) (use wf render_facts(4) in blast)
    also have "\<dots> = length (filter (\<lambda>s. type s = Wildcard) segs)"
      by (simp add: conj_commute cong: conj_cong)
    finally show ?thesis by (simp add: countChar_def)
  qed
  show ?thesis
    unfolding r calculateRoutePriority_def Let_def segs dyn wild formulaPriority_def
    by simp
qed

lemma calculateRoutePriority_formula_example:
  "(\<forall>s \<in> set (segments (parseFilePath ''files/[id]/[...slug]'')). wellFormedSegment s)
   \<and> calculateRoutePriority (filePathToRoute ''files/[id]/[...slug]'') = 730"
  by code_simp

text \<open>
  C1. The score is 1000, plus 10 for every path segment, minus 100 for every dynamic
  segment, minus 200 for every catch-all segment. \<open>calculateRoutePriority\<close> computes
  that (\<open>calculateRoutePriority_formula\<close>); the router's own \<open>calculatePriority\<close>, whose
  score orders the table, does not. For \<open>users/[id]\<close> it counts the empty piece before
  the leading slash as a segment and returns 930, where the formula gives 920; for a
  pattern with a catch-all marker it subtracts 100, where the formula subtracts 200.
\<close>

theorem calculatePriority_off_formula:
  "convertFilePathToRoute ''users/[id]'' = ''/users/:id''
   \<and> calculatePriority ''/users/:id'' = 930
   \<and> formulaPriority (segments (parseFilePath ''users/[id]'')) = 920
   \<and> calculatePriority ''/files/*slug'' = 930
   \<and> formulaPriority (segments (parseFilePath ''files/[...slug]'')) = 820"
  by code_simp

text \<open>
  How the two scores relate on any string: \<open>calculatePriority\<close> is ahead by 10 for
  every empty piece between slashes (a pattern that starts with a slash has one) and
  by 100 for every \<open>*\<close>.
\<close>

lemma calculatePriority_ahead:
  "calculatePriority p =
     calculateRoutePriority p
       + 10 * int (length (filter (\<lambda>s. s = []) (splitStr CHR ''/'' p)))
       + 100 * int (countChar CHR ''*'' p)"
proof -
  have a: "length (splitStr CHR ''/'' p) =
      length (filter (\<lambda>s. s \<noteq> []) (splitStr CHR ''/'' p))
        + length (filter (\<lambda>s. s = []) (splitStr CHR ''/'' p))"
    using sum_length_filter_compl[of "\<lambda>s. s \<noteq> []" "splitStr CHR ''/'' p"] by simp
  have b: "length (filter (\<lambda>c. c = CHR '':'' \<or> c = CHR ''*'') p) =
      countChar CHR '':'' p + countChar CHR ''*'' p"
    by (induction p) (auto simp: countChar_def)
  show ?thesis
    unfolding calculatePriority_def calculateRoutePriority_def Let_def filterBoolean_def a b
    by simp
qed

text \<open>
  C2. The two scoring functions are claimed to agree on every pattern. They differ on
  the root, on a static pattern and on a catch-all pattern.
\<close>

theorem calculatePriority_differs_from_calculateRoutePriority:
  "calculatePriority ''/'' = 1020 \<and> calculateRoutePriority ''/'' = 1000
   \<and> calculatePriority ''/users'' = 1020 \<and> calculateRoutePriority ''/users'' = 1010
   \<and> calculatePriority ''/files/*slug'' = 930 \<and> calculateRoutePriority ''/files/*slug'' = 820"
  by code_simp

section \<open>Compiled patterns\<close>

text \<open>
  C5. The specification \<open>(group)/dashboard\<close> compiles to \<open>/dashboard\<close>, and \<open>/dashboard\<close>
  matches. \<open>filePathToRoute\<close> and \<open>RouteMatcher\<close> do that. \<open>convertFilePathToRoute\<close>
  removes a group only behind a slash, so it keeps a group that opens the relative
  path.
\<close>

theorem convertFilePathToRoute_keeps_leading_group:
  "convertFilePathToRoute ''(group)/dashboard'' = ''/(group)/dashboard''
   \<and> convertFilePathToRoute ''(group)/dashboard/page.tsx'' = ''/(group)/dashboard''
   \<and> convertFilePathToRoute ''app/(group)/dashboard/page.tsx'' = ''/app/dashboard''
   \<and> filePathToRoute ''(group)/dashboard'' = ''/dashboard''
   \<and> addRoute [] ''/dashboard'' = Some [(''/dashboard'', map RChar ''/dashboard'', [])]
   \<and> matchRoute [(''/dashboard'', map RChar ''/dashboard'', [])] ''/dashboard''
       = Found ''/dashboard'' []"
  by code_simp

text \<open>
  C6. A catch-all segment is rendered as a wildcard marker: \<open>[...slug]\<close> becomes
  \<open>*slug\<close>. \<open>filePathToRoute\<close> does that. In \<open>convertFilePathToRoute\<close> the replacement of
  \<open>[param]\<close> runs before the one of \<open>[...slug]\<close> and takes the catch-all for a parameter
  named \<open>...slug\<close>.
\<close>

theorem convertFilePathToRoute_catch_all_as_parameter:
  "convertFilePathToRoute ''files/[...slug]'' = ''/files/:...slug''
   \<and> convertFilePathToRoute ''files/[...slug]/page.tsx'' = ''/files/:...slug''
   \<and> filePathToRoute ''files/[...slug]'' = ''/files/*slug''"
  by code_simp

section \<open>Matching a catch-all\<close>

lemma splits_whole:
  "map fst (filter (\<lambda>ab. snd ab = []) (splits P s)) = (if list_all P s then [s] else [])"
  by (induction s) (auto simp: filter_map comp_def case_prod_beta)

lemma concat_ends:
  "concat (map (\<lambda>ab. if snd ab = [] then [[fst ab]] else []) l)
     = map (\<lambda>a. [a]) (map fst (filter (\<lambda>ab. snd ab = []) l))"
  by (induction l) auto

lemma rxMatches_RAll:
  "rxMatches [RAll] s =
     (if list_all (\<lambda>x. x \<noteq> CHR 0x0A \<and> x \<noteq> CHR 0x0D) s then [[s]] else [])"
proof -
  let ?P = "\<lambda>x. x \<noteq> CHR 0x0A \<and> x \<noteq> CHR 0x0D"
  have one: "map ((#) (fst ab)) (if snd ab = [] then [[]] else []) =
      (if snd ab = [] then [[fst ab]] else [])" for ab :: "string \<times> string"
    by simp
  have "rxMatches [RAll] s =
      concat (map (\<lambda>ab. if snd ab = [] then [[fst ab]] else []) (splits ?P s))"
  proof -
    have "(\<lambda>(a, b). map ((#) a) (if b = [] then [[]] else []))
        = (\<lambda>ab :: string \<times> string. if snd ab = [] then [[fst ab]] else [])"
      by (rule ext) (simp add: case_prod_beta)
    then show ?thesis by simp
  qed
  also have "\<dots> = map (\<lambda>a. [a]) (map fst (filter (\<lambda>ab. snd ab = []) (splits ?P s)))"
    by (rule concat_ends)
  finally show ?thesis by (simp add: splits_whole)
qed

lemma rxMatches_literal:
  "rxMatches (map RChar lit @ r) s =
     (if startsWith s lit then rxMatches r (drop (length lit) s) else [])"
  by (induction lit arbitrary: s) (auto split: list.splits)

lemma catch_all_expression:
  "matchRoute [(''/files/*slug'', map RChar ''/files/'' @ [RAll], [''slug''])] p =
     (if startsWith p ''/files/'' \<and> list_all (\<lambda>x. x \<noteq> CHR 0x0A \<and> x \<noteq> CHR 0x0D) (drop 7 p)
      then Found ''/files/*slug'' [(''slug'', Strs (filterBoolean (splitStr CHR ''/'' (drop 7 p))))]
      else Null)"
proof -
  have "rxMatches (map RChar ''/files/'' @ [RAll]) p =
     (if startsWith p ''/files/'' \<and> list_all (\<lambda>x. x \<noteq> CHR 0x0A \<and> x \<noteq> CHR 0x0D) (drop 7 p)
      then [[drop 7 p]] else [])"
  proof -
    have l: "length ''/files/'' = 7" by simp
    show ?thesis unfolding rxMatches_literal rxMatches_RAll l by simp
  qed
  then show ?thesis
    by (simp add: execRegExp_def)
qed

text \<open>
  C4, as the code has it. The specification \<open>files/[...slug]\<close> compiles to the
  expression \<open>^\/files\/(.*)$\<close>. A request path matches exactly when it starts with
  \<open>/files/\<close> (and no line terminator follows), and \<open>slug\<close> is bound to the non-empty
  pieces of the rest. So \<open>/files/a/b/c\<close> matches and binds \<open>slug\<close> to the list a, b, c,
  and \<open>/files\<close> does not match, for want of the slash after \<open>files\<close>. The catch-all
  itself may capture nothing: \<open>/files/\<close> matches and binds \<open>slug\<close> to the empty list.
\<close>

theorem catch_all_match:
  "filePathToRoute ''files/[...slug]'' = ''/files/*slug''
   \<and> addRoute [] ''/files/*slug''
       = Some [(''/files/*slug'', map RChar ''/files/'' @ [RAll], [''slug''])]
   \<and> matchRoute [(''/files/*slug'', map RChar ''/files/'' @ [RAll], [''slug''])] p =
       (if startsWith p ''/files/''
            \<and> list_all (\<lambda>x. x \<noteq> CHR 0x0A \<and> x \<noteq> CHR 0x0D) (drop 7 p)
        then Found ''/files/*slug''
               [(''slug'', Strs (filterBoolean (splitStr CHR ''/'' (drop 7 p))))]
        else Null)
   \<and> matchRoute [(''/files/*slug'', map RChar ''/files/'' @ [RAll], [''slug''])] ''/files/a/b/c''
       = Found ''/files/*slug'' [(''slug'', Strs [''a'', ''b'', ''c''])]
   \<and> matchRoute [(''/files/*slug'', map RChar ''/files/'' @ [RAll], [''slug''])] ''/files''
       = Null
   \<and> matchRoute [(''/files/*slug'', map RChar ''/files/'' @ [RAll], [''slug''])] ''/files/''
       = Found ''/files/*slug'' [(''slug'', Strs [])]"
proof -
  have a: "filePathToRoute ''files/[...slug]'' = ''/files/*slug''" by code_simp
  have b: "addRoute [] ''/files/*slug''
       = Some [(''/files/*slug'', map RChar ''/files/'' @ [RAll], [''slug''])]" by code_simp
  have c: "matchRoute [(''/files/*slug'', map RChar ''/files/'' @ [RAll], [''slug''])] ''/files/a/b/c''
       = Found ''/files/*slug'' [(''slug'', Strs [''a'', ''b'', ''c''])]" by code_simp
  have d: "matchRoute [(''/files/*slug'', map RChar ''/files/'' @ [RAll], [''slug''])] ''/files''
       = Null" by code_simp
  have e: "matchRoute [(''/files/*slug'', map RChar ''/files/'' @ [RAll], [''slug''])] ''/files/''
       = Found ''/files/*slug'' [(''slug'', Strs [])]" by code_simp
  from a b catch_all_expression[of p] c d e show ?thesis by (intro conjI)
qed

text \<open>
  C4 as stated requires at least one remaining segment for a catch-all to match. The
  request \<open>/files/\<close> has none after \<open>files\<close> and matches.
\<close>

theorem catch_all_matches_without_segment:
  "addRoute [] (filePathToRoute ''files/[...slug]'')
     = Some [(''/files/*slug'', map RChar ''/files/'' @ [RAll], [''slug''])]
   \<and> matchRoute [(''/files/*slug'', map RChar ''/files/'' @ [RAll], [''slug''])] ''/files/''
       = Found ''/files/*slug'' [(''slug'', Strs [])]"
  by code_simp

section \<open>Parsing never fails\<close>

lemma parseSegment_step:
  "length (segments (parseSegment r x)) = Suc (length (segments r))"
  "map Some (params r)
     = map param (filter (\<lambda>s. type s = Dynamic \<or> type s = Wildcard) (segments r)) \<Longrightarrow>
   map Some (params (parseSegment r x))
     = map param (filter (\<lambda>s. type s = Dynamic \<or> type s = Wildcard)
         (segments (parseSegment r x)))"
  by (auto simp: parseSegment_def Let_def)

lemma parse_loop:
  "map Some (params r)
     = map param (filter (\<lambda>s. type s = Dynamic \<or> type s = Wildcard) (segments r)) \<Longrightarrow>
   length (segments (foldl parseSegment r xs)) = length (segments r) + length xs
   \<and> map Some (params (foldl parseSegment r xs))
       = map param (filter (\<lambda>s. type s = Dynamic \<or> type s = Wildcard)
           (segments (foldl parseSegment r xs)))"
  by (induction xs arbitrary: r) (simp_all add: parseSegment_step)

text \<open>
  C7, as the code has it. \<open>parseFilePath\<close> has no failure: for every path it returns
  one segment for each non-empty piece of the cleaned path, and \<open>params\<close> lists the
  names of the dynamic and catch-all segments in order, whatever they are. A marker
  without a name gives a segment whose name is the empty string, and a name that
  occurs twice is listed twice.
\<close>

theorem parseFilePath_total:
  "length (segments (parseFilePath p))
     = length (filterBoolean (splitStr CHR ''/'' (cleanPath p)))
   \<and> map Some (params (parseFilePath p))
       = map param (filter (\<lambda>s. type s = Dynamic \<or> type s = Wildcard)
           (segments (parseFilePath p)))"
  unfolding parseFilePath_def
  using parse_loop[of "\<lparr>segments = [], params = [], isDynamic = False, isWildcard = False\<rparr>"]
  by simp

text \<open>
  C7 as stated has the parser reject a catch-all marker without a name, a dynamic
  marker without a name, and a repeated parameter name. It returns a parsed route
  for each of the three.
\<close>

theorem parseFilePath_accepts_malformed:
  "parseFilePath ''[...]'' =
     \<lparr>segments = [\<lparr>type = Wildcard, val = ''[...]'', param = Some []\<rparr>], params = [[]],
      isDynamic = True, isWildcard = True\<rparr>
   \<and> parseFilePath ''[]'' =
     \<lparr>segments = [\<lparr>type = Dynamic, val = ''[]'', param = Some []\<rparr>], params = [[]],
      isDynamic = True, isWildcard = False\<rparr>
   \<and> parseFilePath ''[id]/[id]'' =
     \<lparr>segments = [\<lparr>type = Dynamic, val = ''[id]'', param = Some ''id''\<rparr>,
                 \<lparr>type = Dynamic, val = ''[id]'', param = Some ''id''\<rparr>],
      params = [''id'', ''id''], isDynamic = True, isWildcard = False\<rparr>"
  by code_simp

section \<open>The order of the table\<close>

text \<open>
  C3, as the code has it. The sorted table holds the routes of the route map in
  descending order of priority, and routes of equal priority stand in the order of
  the route map, which is the order in which their keys were first registered. There
  is no tie-break on the pattern.
\<close>

theorem sortedRoutes_stable:
  "sorted (map (\<lambda>r. - priority r) (sortedRoutes st))
   \<and> set (sortedRoutes st) = snd ` set (routes st)
   \<and> filter (\<lambda>r. priority r = k) (sortedRoutes st)
       = filter (\<lambda>r. priority r = k) (map snd (routes st))"
proof -
  have "filter (\<lambda>r. - priority r = - k) (sortedRoutes st)
      = filter (\<lambda>r. - priority r = - k) (map snd (routes st))"
    unfolding sortedRoutes_def by (rule sort_key_stable)
  then show ?thesis by (simp add: sortedRoutes_def)
qed

text \<open>
  C3 as stated orders routes of equal score by their pattern, ascending, whatever the
  order of registration. The pages \<open>b\<close> and \<open>a\<close>, discovered in this order, both score
  1020 and stay in this order, though \<open>/a\<close> is less than \<open>/b\<close>; discovered in the other
  order they come out in the other order.
\<close>

theorem sortedRoutes_ties_keep_registration_order:
  "map path (sortedRoutes (scanFiles [pageFile ''b/page.tsx'' (1::nat), pageFile ''a/page.tsx'' 2]))
     = [''/b'', ''/a'']
   \<and> map priority (sortedRoutes (scanFiles [pageFile ''b/page.tsx'' (1::nat), pageFile ''a/page.tsx'' 2]))
     = [1020, 1020]
   \<and> ''/a'' < ''/b''
   \<and> map path (sortedRoutes (scanFiles [pageFile ''a/page.tsx'' (2::nat), pageFile ''b/page.tsx'' 1]))
     = [''/a'', ''/b'']"
  by code_simp

section \<open>Registering a route twice\<close>

lemma map_fst_mapSet:
  "map fst (mapSet k v m) = (if k \<in> fst ` set m then map fst m else map fst m @ [k])"
  by (induction k v m rule: mapSet.induct) (auto simp: rev_image_eqI)

lemma set_mapSet: "set (mapSet k v m) \<subseteq> insert (k, v) (set m)"
  by (induction k v m rule: mapSet.induct) auto

lemma map_of_mapSet: "map_of (mapSet k v m) = (map_of m)(k \<mapsto> v)"
  by (induction k v m rule: mapSet.induct) (auto simp: fun_eq_iff)

lemma routesInv_mapSet:
  assumes "routesInv rs" "k = httpMethod r @ '':'' @ path r" "httpMethod r \<in> set methods"
  shows "routesInv (mapSet k r rs)"
proof -
  have d: "distinct (map fst (mapSet k r rs))"
    using assms(1) by (auto simp: routesInv_def map_fst_mapSet)
  have "\<forall>kr \<in> set (mapSet k r rs). fst kr = httpMethod (snd kr) @ '':'' @ path (snd kr) \<and> httpMethod (snd kr) \<in> set methods"
    using assms set_mapSet[of k r rs] by (auto simp: routesInv_def)
  with d show ?thesis by (simp add: routesInv_def)
qed

lemma routesInv_registerMethod:
  "routesInv (routes st) \<Longrightarrow> m \<in> set methods \<Longrightarrow> routesInv (routes (registerMethod fp rp md st m))"
  by (auto simp: registerMethod_def intro!: routesInv_mapSet split: option.splits)

lemma routesInv_foldl_registerMethod:
  "routesInv (routes st) \<Longrightarrow> set ms \<subseteq> set methods \<Longrightarrow> routesInv (routes (foldl (registerMethod fp rp md) st ms))"
  by (induction ms arbitrary: st) (auto simp: routesInv_registerMethod)

lemma routesInv_processApiRoute:
  "routesInv (routes st) \<Longrightarrow> routesInv (routes (processApiRoute st fp rel md))"
  unfolding processApiRoute_def by (rule routesInv_foldl_registerMethod) auto

lemma routesInv_processPageRoute:
  "routesInv (routes st) \<Longrightarrow> routesInv (routes (processPageRoute st fp rel md))"
  by (auto simp: processPageRoute_def Let_def methods_def intro!: routesInv_mapSet split: option.splits)

lemma routes_processMiddleware: "routes (processMiddleware st fp rel md) = routes st"
  by (auto simp: processMiddleware_def Let_def split: option.splits)

lemma routesInv_processFile:
  "routesInv (routes st) \<Longrightarrow> routesInv (routes (processFile st f))"
  by (simp add: processFile_def Let_def routesInv_processApiRoute routesInv_processPageRoute
      routes_processMiddleware)

lemma routesInv_foldl_processFile:
  "routesInv (routes st) \<Longrightarrow> routesInv (routes (foldl processFile st fs))"
  by (induction fs arbitrary: st) (auto simp: routesInv_processFile)

lemma routesInv_scanFiles: "routesInv (routes (scanFiles fs))"
  unfolding scanFiles_def by (rule routesInv_foldl_processFile) (simp add: newRouter_def routesInv_def)

lemma handler_registerMethod:
  "map_option handler (map_of (routes (registerMethod fp rp md st m')) (m @ CHR '':'' # rp)) =
    (if m' = m \<and> md m \<noteq> None then map_option Exported (md m)
     else map_option handler (map_of (routes st) (m @ CHR '':'' # rp)))"
  by (auto simp: registerMethod_def map_of_mapSet split: option.splits)

lemma handler_foldl_registerMethod:
  "md m = Some h \<Longrightarrow>
   map_option handler (map_of (routes (foldl (registerMethod fp rp md) st ms)) (m @ CHR '':'' # rp)) =
    (if m \<in> set ms then Some (Exported h)
     else map_option handler (map_of (routes st) (m @ CHR '':'' # rp)))"
proof (induction ms arbitrary: st rule: rev_induct)
  case Nil
  then show ?case by simp
next
  case (snoc x xs)
  then show ?case by (simp add: handler_registerMethod)
qed

lemma handler_processApiRoute:
  "m \<in> set methods \<Longrightarrow> md m = Some h \<Longrightarrow>
   map_option handler (map_of (routes (processApiRoute st fp rel md)) (m @ CHR '':'' # convertFilePathToRoute rel))
     = Some (Exported h)"
  unfolding processApiRoute_def by (simp add: handler_foldl_registerMethod)

lemma key_inj:
  assumes "CHR '':'' \<notin> set a" "CHR '':'' \<notin> set a'" "a @ '':'' @ b = a' @ '':'' @ b'"
  shows "a = a' \<and> b = b'"
proof -
  have "takeWhile (\<lambda>c. c \<noteq> CHR '':'') (a @ CHR '':'' # b) = a"
    using assms(1) by (induction a) auto
  moreover have "takeWhile (\<lambda>c. c \<noteq> CHR '':'') (a' @ CHR '':'' # b') = a'"
    using assms(2) by (induction a') auto
  ultimately have "a = a'" using assms(3) by simp
  with assms(3) show ?thesis by simp
qed

lemma methods_no_colon: "m \<in> set methods \<Longrightarrow> CHR '':'' \<notin> set m"
  by (auto simp: methods_def)

lemma filter_key_absent: "k \<notin> fst ` set rs \<Longrightarrow> filter (\<lambda>kr. fst kr = k) rs = []"
  by (induction rs) auto

lemma filter_key_single:
  "distinct (map fst rs) \<Longrightarrow> map_of rs k = Some v \<Longrightarrow> filter (\<lambda>kr. fst kr = k) rs = [(k, v)]"
proof (induction rs)
  case Nil
  then show ?case by simp
next
  case (Cons a rs)
  obtain k' v' where a: "a = (k', v')" by (cases a)
  show ?case
  proof (cases "k' = k")
    case True
    with Cons.prems a have "v' = v" "k \<notin> fst ` set rs" by auto
    then show ?thesis using a True by (simp add: filter_key_absent)
  next
    case False
    with Cons a show ?thesis by simp
  qed
qed

lemma entries_for_key:
  assumes inv: "routesInv rs" and m: "m \<in> set methods"
    and look: "map_of rs (m @ CHR '':'' # rp) = Some v"
  shows "filter (\<lambda>r. httpMethod r = m \<and> path r = rp) (map snd rs) = [v]"
proof -
  have eq: "(httpMethod (snd kr) = m \<and> path (snd kr) = rp) = (fst kr = m @ CHR '':'' # rp)"
    if "kr \<in> set rs" for kr
  proof -
    from that inv have k: "fst kr = httpMethod (snd kr) @ '':'' @ path (snd kr)"
      and hm: "httpMethod (snd kr) \<in> set methods"
      by (simp_all add: routesInv_def)
    show ?thesis
    proof
      assume "httpMethod (snd kr) = m \<and> path (snd kr) = rp"
      with k show "fst kr = m @ CHR '':'' # rp" by simp
    next
      assume "fst kr = m @ CHR '':'' # rp"
      with k have "httpMethod (snd kr) @ '':'' @ path (snd kr) = m @ '':'' @ rp" by simp
      from key_inj[OF methods_no_colon[OF hm] methods_no_colon[OF m] this]
      show "httpMethod (snd kr) = m \<and> path (snd kr) = rp" .
    qed
  qed
  have "filter (\<lambda>r. httpMethod r = m \<and> path r = rp) (map snd rs)
        = map snd (filter (\<lambda>kr. httpMethod (snd kr) = m \<and> path (snd kr) = rp) rs)"
    by (simp add: filter_map comp_def)
  also have "filter (\<lambda>kr. httpMethod (snd kr) = m \<and> path (snd kr) = rp) rs
        = filter (\<lambda>kr. fst kr = m @ CHR '':'' # rp) rs"
    by (rule filter_cong) (simp_all add: eq)
  also have "map snd (filter (\<lambda>kr. fst kr = m @ CHR '':'' # rp) rs) = [v]"
    using filter_key_single[OF _ look] inv by (simp add: routesInv_def)
  finally show ?thesis .
qed

text \<open>
  C8. When a route file is processed twice for one relative path, with modules that
  export different handlers for a method, nothing fails, and the sorted table built
  afterwards holds exactly one route for that method and path: the one with the
  second handler.
\<close>

theorem reregistration_replaces:
  assumes "m \<in> set methods" "mod1 m = Some h1" "mod2 m = Some h2"
  shows "map handler (filter (\<lambda>r. httpMethod r = m \<and> path r = convertFilePathToRoute rel)
            (sortedRoutes (processApiRoute (processApiRoute (scanFiles fs) fp1 rel mod1) fp2 rel mod2)))
         = [Exported h2]"
proof -
  let ?st = "processApiRoute (processApiRoute (scanFiles fs) fp1 rel mod1) fp2 rel mod2"
  let ?rp = "convertFilePathToRoute rel"
  have inv: "routesInv (routes ?st)"
    by (intro routesInv_processApiRoute routesInv_scanFiles)
  from handler_processApiRoute[of m mod2 h2 "processApiRoute (scanFiles fs) fp1 rel mod1" fp2 rel] assms
  obtain v where v: "map_of (routes ?st) (m @ CHR '':'' # ?rp) = Some v" and h: "handler v = Exported h2"
    by blast
  have "filter (\<lambda>r. httpMethod r = m \<and> path r = ?rp) (sortedRoutes ?st)
        = sort_key (\<lambda>r. - priority r) (filter (\<lambda>r. httpMethod r = m \<and> path r = ?rp) (map snd (routes ?st)))"
    unfolding sortedRoutes_def by (rule filter_sort)
  also have "\<dots> = [v]"
    by (simp add: entries_for_key[OF inv assms(1) v])
  finally show ?thesis using h by simp
qed

text \<open>C8 at \<open>users/route.ts\<close>, registered twice for GET in a new router.\<close>

theorem reregistration_replaces_witness:
  "''GET'' \<in> set methods
   \<and> map_of [(''GET'', 1::nat)] ''GET'' = Some 1
   \<and> map_of [(''GET'', 2::nat)] ''GET'' = Some 2
   \<and> map handler (filter (\<lambda>r. httpMethod r = ''GET'' \<and> path r = convertFilePathToRoute ''users/route.ts'')
            (sortedRoutes (processApiRoute (processApiRoute (scanFiles []) ''a'' ''users/route.ts'' (map_of [(''GET'', 1::nat)]))
                ''b'' ''users/route.ts'' (map_of [(''GET'', 2::nat)]))))
         = [Exported 2]"
  using reregistration_replaces[of "''GET''" "map_of [(''GET'', 1::nat)]" 1 "map_of [(''GET'', 2::nat)]" 2 "''users/route.ts''" "[]" "''a''" "''b''"]
  by (simp add: methods_def)

section \<open>Middleware\<close>

lemma getMiddlewareForPath_acc:
  "foldl (\<lambda>acc (middlewarePath, middlewareList).
              if startsWith routePath middlewarePath then acc @ middlewareList else acc) acc mw
   = acc @ applicableMiddleware mw routePath"
  by (induction mw arbitrary: acc) (auto simp: applicableMiddleware_def startsWith_prefix)

lemma getMiddlewareForPath_eq:
  "getMiddlewareForPath mw routePath = applicableMiddleware mw routePath"
  unfolding getMiddlewareForPath_def getMiddlewareForPath_acc by simp

text \<open>
  C9. For every route and every middleware map, \<open>getMiddlewareForPath\<close> returns the
  concatenation, in the order of the bindings and with nothing removed, of the lists
  of exactly the bindings whose prefix is a string prefix of the route. A binding for
  \<open>/user\<close> applies to \<open>/users\<close>, and a middleware that two applicable bindings name
  appears twice.
\<close>

theorem getMiddlewareForPath_applicable:
  "getMiddlewareForPath mw routePath = applicableMiddleware mw routePath
   \<and> getMiddlewareForPath [(''/user'', [m])] ''/users'' = [m]
   \<and> getMiddlewareForPath [(''/'', [m]), (''/users'', [m])] ''/users/:id'' = [m, m]"
  unfolding getMiddlewareForPath_def getMiddlewareForPath_acc
  by (simp add: applicableMiddleware_def)

lemma matchDelim_no_close:
  "cl \<notin> set (drop (length opn) s) \<Longrightarrow> matchDelim opn cl s = None"
  by (simp add: matchDelim_def Let_def dropWhile_eq_Nil_conv)

lemma matchDelim_append:
  assumes "cl \<notin> set sfx"
  shows "matchDelim opn cl (x @ sfx) = map_option (\<lambda>(b, r). (b, r @ sfx)) (matchDelim opn cl x)"
proof (cases "prefix opn x")
  case True
  then have len: "length opn \<le> length x" by (simp add: prefix_length_le)
  let ?t = "drop (length opn) x"
  have sw: "startsWith (x @ sfx) opn" "startsWith x opn"
    using True by (simp_all add: startsWith_prefix)
  show ?thesis
  proof (cases "cl \<in> set ?t")
    case True
    then have "takeWhile (\<lambda>c. c \<noteq> cl) (?t @ sfx) = takeWhile (\<lambda>c. c \<noteq> cl) ?t"
      and "dropWhile (\<lambda>c. c \<noteq> cl) (?t @ sfx) = dropWhile (\<lambda>c. c \<noteq> cl) ?t @ sfx"
      and "dropWhile (\<lambda>c. c \<noteq> cl) ?t \<noteq> []"
      by (auto simp: takeWhile_append1 dropWhile_append1 dropWhile_eq_Nil_conv)
    then show ?thesis using sw len by (simp add: matchDelim_def Let_def)
  next
    case False
    then have "cl \<notin> set (drop (length opn) (x @ sfx))" using assms len by simp
    then have "matchDelim opn cl (x @ sfx) = None" by (rule matchDelim_no_close)
    moreover have "matchDelim opn cl x = None" using False by (rule matchDelim_no_close)
    ultimately show ?thesis by simp
  qed
next
  case False
  then have r: "matchDelim opn cl x = None" by (simp add: matchDelim_def startsWith_prefix)
  show ?thesis
  proof (cases "prefix opn (x @ sfx)")
    case True
    with False obtain us where "opn = x @ us" by (auto simp: prefix_append)
    then have "set (drop (length opn) (x @ sfx)) \<subseteq> set sfx"
      by (auto dest: in_set_dropD)
    with assms have "cl \<notin> set (drop (length opn) (x @ sfx))" by blast
    then have "matchDelim opn cl (x @ sfx) = None" by (rule matchDelim_no_close)
    with r show ?thesis by simp
  next
    case False
    then show ?thesis using r by (simp add: matchDelim_def startsWith_prefix)
  qed
qed

lemma replaceAllDelim_no_close:
  "cl \<notin> set s \<Longrightarrow> replaceAllDelim opn cl f s = s"
proof (induction s)
  case Nil
  then show ?case by simp
next
  case (Cons c cs)
  have "cl \<notin> set (drop (length opn) (c # cs))"
    using Cons.prems by (auto dest: in_set_dropD)
  then have "matchDelim opn cl (c # cs) = None" by (rule matchDelim_no_close)
  with Cons show ?case by simp
qed

lemma replaceAllDelim_append:
  "cl \<notin> set sfx \<Longrightarrow> replaceAllDelim opn cl f (d @ sfx) = replaceAllDelim opn cl f d @ sfx"
proof (induction opn cl f d rule: replaceAllDelim.induct)
  case (1 opn cl f)
  then show ?case by (simp add: replaceAllDelim_no_close)
next
  case (2 opn cl f c cs)
  have m: "matchDelim opn cl (c # cs @ sfx) = map_option (\<lambda>(b, r). (b, r @ sfx)) (matchDelim opn cl (c # cs))"
    using matchDelim_append[OF "2.prems", of opn "c # cs"] by simp
  show ?case
  proof (cases "matchDelim opn cl (c # cs)")
    case None
    with m "2.IH"(1)[OF None "2.prems"] show ?thesis by simp
  next
    case (Some a)
    obtain body rest where a: "a = (body, rest)" by (cases a)
    with Some m "2.IH"(2)[OF Some a[symmetric] "2.prems"] show ?thesis by simp
  qed
qed


lemma removeExtension_strip:
  "ext \<in> set [''ts'', ''tsx'', ''js'', ''jsx''] \<Longrightarrow> removeExtension (x @ CHR ''.'' # ext) = x"
  by (auto simp: removeExtension_def removeSuffix_def endsWith_def)

lemma removeSuffix_keep:
  "removeSuffix ''/page'' (x @ ''/_middleware'') = x @ ''/_middleware''"
  "removeSuffix ''/route'' (x @ ''/_middleware'') = x @ ''/_middleware''"
  "removeSuffix ''/index'' (x @ ''/_middleware'') = x @ ''/_middleware''"
  "removeSuffix ''/'' (x @ ''/_middleware'') = x @ ''/_middleware''"
  "removeSuffix ''/page'' (x @ ''/middleware'') = x @ ''/middleware''"
  "removeSuffix ''/route'' (x @ ''/middleware'') = x @ ''/middleware''"
  "removeSuffix ''/index'' (x @ ''/middleware'') = x @ ''/middleware''"
  "removeSuffix ''/'' (x @ ''/middleware'') = x @ ''/middleware''"
  by (simp_all add: removeSuffix_def endsWith_def)

lemma long_not_short:
  "11 \<le> length s \<Longrightarrow> s \<noteq> ''page'' \<and> s \<noteq> ''/page'' \<and> s \<noteq> ''/''"
  by auto

lemma convert_tail:
  assumes "sfx = ''/_middleware'' \<or> sfx = ''/middleware''"
  shows "\<exists>y. (if x @ sfx = ''page'' \<or> x @ sfx = ''/page'' then ''/''
         else if (if startsWith (x @ sfx) ''/'' then x @ sfx else CHR ''/'' # x @ sfx) = ''/''
              then ''/''
              else removeSuffix ''/'' (if startsWith (x @ sfx) ''/'' then x @ sfx else CHR ''/'' # x @ sfx))
        = y @ sfx"
proof -
  have "11 \<le> length (x @ sfx)" "11 \<le> length (CHR ''/'' # x @ sfx)" using assms by auto
  then have n1: "x @ sfx \<noteq> ''page''" "x @ sfx \<noteq> ''/page''" "x @ sfx \<noteq> ''/''"
    "CHR ''/'' # x @ sfx \<noteq> ''/''"
    using long_not_short by blast+
  have k: "removeSuffix ''/'' (x @ sfx) = x @ sfx"
    "removeSuffix ''/'' (CHR ''/'' # x @ sfx) = (CHR ''/'' # x) @ sfx"
    using assms removeSuffix_keep[of x] removeSuffix_keep[of "CHR ''/'' # x"] by auto
  show ?thesis
  proof (cases "startsWith (x @ sfx) ''/''")
    case True
    then show ?thesis using n1 k by simp
  next
    case False
    have "\<exists>y. (CHR ''/'' # x) @ sfx = y @ sfx" by blast
    then show ?thesis using False n1 k by (simp del: append_Cons)
  qed
qed

lemma convert_middleware_suffix:
  assumes s: "sfx = ''/_middleware'' \<or> sfx = ''/middleware''"
    and e: "ext \<in> set [''ts'', ''tsx'', ''js'', ''jsx'']"
  shows "\<exists>y. convertFilePathToRoute (dir @ sfx @ CHR ''.'' # ext) = y @ sfx"
proof -
  have b: "backslashToSlash (dir @ sfx @ CHR ''.'' # ext) = (backslashToSlash dir @ sfx) @ CHR ''.'' # ext"
    using s e by (auto simp: backslashToSlash_def)
  have r0: "removeSuffix ''/index'' (removeSuffix ''/route'' (removeSuffix ''/page''
                  (removeExtension (backslashToSlash (dir @ sfx @ CHR ''.'' # ext))))) = backslashToSlash dir @ sfx"
    unfolding b removeExtension_strip[OF e] using s removeSuffix_keep by auto
  have nc: "CHR '']'' \<notin> set sfx" "CHR '')'' \<notin> set sfx" using s by auto
  obtain x where x: "replaceAllDelim ''/('' CHR '')'' (\<lambda>b. [])
            (replaceAllDelim ''[...'' CHR '']'' (\<lambda>b. CHR ''*'' # b)
              (replaceAllDelim ''['' CHR '']'' (\<lambda>b. CHR '':'' # b) (backslashToSlash dir @ sfx))) = x @ sfx"
    by (simp add: replaceAllDelim_append nc)
  show ?thesis
    unfolding convertFilePathToRoute_def Let_def r0 x
    by (rule convert_tail[OF s])
qed

lemma applicable_mapSet_other:
  "\<not> prefix k r \<Longrightarrow> applicableMiddleware (mapSet k v m) r = applicableMiddleware m r"
  by (induction k v m rule: mapSet.induct) (auto simp: applicableMiddleware_def)

lemma getMiddlewareForPath_processMiddleware:
  "\<not> startsWith r (convertFilePathToRoute rel) \<Longrightarrow>
   getMiddlewareForPath (middlewareMap (processMiddleware st fp rel md)) r
     = getMiddlewareForPath (middlewareMap st) r"
  by (auto simp: processMiddleware_def Let_def getMiddlewareForPath_eq startsWith_prefix
      applicable_mapSet_other split: option.splits)

lemma convert_middleware_file:
  assumes n: "name = ''_middleware'' \<or> name = ''middleware''" and e: "ext \<in> set extensions"
  shows "\<exists>y. convertFilePathToRoute (dir @ ''/'' @ name @ ext) = y @ ''/'' @ name"
proof -
  from e obtain e' where e': "ext = CHR ''.'' # e'" "e' \<in> set [''ts'', ''tsx'', ''js'', ''jsx'']"
    by (auto simp: extensions_def)
  from n have s: "''/'' @ name = ''/_middleware'' \<or> ''/'' @ name = ''/middleware''" by auto
  from convert_middleware_suffix[OF s e'(2), of dir] show ?thesis by (simp add: e'(1))
qed

lemma not_prefix_users_new:
  assumes "name = ''_middleware'' \<or> name = ''middleware''"
  shows "\<not> startsWith ''/users/new'' (y @ ''/'' @ name)"
proof
  assume "startsWith ''/users/new'' (y @ ''/'' @ name)"
  then have "length (y @ ''/'' @ name) \<le> length ''/users/new''"
    unfolding startsWith_prefix by (rule prefix_length_le)
  with assms show False by auto
qed

text \<open>
  C10. For every middleware file \<open>dir/_middleware.ext\<close> or \<open>dir/middleware.ext\<close>, the key
  that \<open>processMiddleware\<close> computes ends with the file name as a segment of its own;
  \<open>users/_middleware.ts\<close> gives \<open>/users/_middleware\<close>. Registering the file changes the
  middleware of a route only if the route starts with that key, and it never changes
  the middleware of \<open>/users/new\<close>.
\<close>

theorem middleware_key_keeps_file_name:
  assumes "name = ''_middleware'' \<or> name = ''middleware''" and "ext \<in> set extensions"
  shows "(\<exists>y. convertFilePathToRoute (dir @ ''/'' @ name @ ext) = y @ ''/'' @ name)
     \<and> convertFilePathToRoute ''users/_middleware.ts'' = ''/users/_middleware''
     \<and> (\<not> startsWith route (convertFilePathToRoute (dir @ ''/'' @ name @ ext)) \<longrightarrow>
          getMiddlewareForPath (middlewareMap (processMiddleware st fp (dir @ ''/'' @ name @ ext) md)) route
            = getMiddlewareForPath (middlewareMap st) route)
     \<and> getMiddlewareForPath (middlewareMap (processMiddleware st fp (dir @ ''/'' @ name @ ext) md)) ''/users/new''
          = getMiddlewareForPath (middlewareMap st) ''/users/new''"
proof -
  from convert_middleware_file[OF assms, of dir]
  obtain y where y: "convertFilePathToRoute (dir @ ''/'' @ name @ ext) = y @ ''/'' @ name" ..
  have a: "\<exists>y. convertFilePathToRoute (dir @ ''/'' @ name @ ext) = y @ ''/'' @ name"
    using y by blast
  have b: "convertFilePathToRoute ''users/_middleware.ts'' = ''/users/_middleware''"
    by code_simp
  have c: "\<not> startsWith ''/users/new'' (convertFilePathToRoute (dir @ ''/'' @ name @ ext))"
    unfolding y by (rule not_prefix_users_new[OF assms(1)])
  have d: "\<not> startsWith route (convertFilePathToRoute (dir @ ''/'' @ name @ ext)) \<longrightarrow>
          getMiddlewareForPath (middlewareMap (processMiddleware st fp (dir @ ''/'' @ name @ ext) md)) route
            = getMiddlewareForPath (middlewareMap st) route"
    by (rule impI) (rule getMiddlewareForPath_processMiddleware)
  from a b d getMiddlewareForPath_processMiddleware[OF c, of st fp md]
  show ?thesis by (intro conjI)
qed

text \<open>C10 at \<open>users/_middleware.ts\<close>, registered in a new router.\<close>

theorem middleware_key_keeps_file_name_witness:
  "''.ts'' \<in> set extensions
   \<and> convertFilePathToRoute ''users/_middleware.ts'' = ''/users/_middleware''
   \<and> \<not> startsWith ''/users/new'' (convertFilePathToRoute ''users/_middleware.ts'')
   \<and> getMiddlewareForPath (middlewareMap (processMiddleware newRouter ''app/api/users/_middleware.ts''
         ''users/_middleware.ts'' (map_of [(''default'', 7::nat)]))) ''/users/new''
       = getMiddlewareForPath (middlewareMap (newRouter :: nat Router)) ''/users/new''
   \<and> getMiddlewareForPath (middlewareMap (processMiddleware newRouter ''app/api/users/_middleware.ts''
         ''users/_middleware.ts'' (map_of [(''default'', 7::nat)]))) ''/users/_middleware/x'' = [7]"
proof -
  have e: "''.ts'' \<in> set extensions" by (simp add: extensions_def)
  have n: "''_middleware'' = ''_middleware'' \<or> ''_middleware'' = ''middleware''" by simp
  have k: "convertFilePathToRoute ''users/_middleware.ts'' = ''/users/_middleware''" by code_simp
  have s: "\<not> startsWith ''/users/new'' ''/users/_middleware''" by simp
  have l: "getMiddlewareForPath (middlewareMap (processMiddleware newRouter ''app/api/users/_middleware.ts''
         ''users/_middleware.ts'' (map_of [(''default'', 7::nat)]))) ''/users/_middleware/x'' = [7]"
    by code_simp
  from middleware_key_keeps_file_name[OF n e, of "''users''" "''/users/new''" "newRouter :: nat Router"
      "''app/api/users/_middleware.ts''" "map_of [(''default'', 7::nat)]"]
  show ?thesis using e k s l by simp
qed

end
